theory Spec2Isabelle
  imports Main
begin

section \<open>The virtual keyboard of lab 6: commands, history, snapshots\<close>

text \<open>
  The development embeds \<^verbatim>\<open>src/lab 6/main.py\<close>. Command objects are shared between
  the binding table and the two stacks, so they live in an explicit store: a list of
  command values, an object's address being its index. Strings are HOL strings, one
  \<open>char\<close> standing for one character of a Python \<^verbatim>\<open>str\<close>; the integer fields are
  Python's unbounded integers.
\<close>

subsection \<open>Python's \<^verbatim>\<open>str\<close> of an integer\<close>

definition digit_char :: "nat \<Rightarrow> char" where
  "digit_char d = char_of (48 + d)"

fun str_nat :: "nat \<Rightarrow> string" where
  "str_nat n = (if n < 10 then [digit_char n] else str_nat (n div 10) @ [digit_char (n mod 10)])"

declare str_nat.simps [simp del]

definition str_int :: "int \<Rightarrow> string" where
  "str_int i = (if i < 0 then CHR ''-'' # str_nat (nat (- i)) else str_nat (nat i))"

subsection \<open>The four command classes\<close>

datatype command =
    PrintCharCommand string
  | VolumeUpCommand int int
  | VolumeDownCommand int int
  | MediaPlayerCommand bool

text \<open>
  \<open>VolumeUpCommand amount current_volume\<close>, \<open>VolumeDownCommand amount current_volume\<close>,
  \<open>MediaPlayerCommand is_playing\<close>, \<open>PrintCharCommand char\<close>. A method takes the object
  and the class attribute \<^verbatim>\<open>PrintCharCommand.text\<close> and returns the string it returns,
  the object after the call and the class attribute after the call.
\<close>

fun execute :: "command \<Rightarrow> string \<Rightarrow> string \<times> command \<times> string" where
  "execute (PrintCharCommand c) t = (t @ c, PrintCharCommand c, t @ c)"
| "execute (VolumeUpCommand a v) t =
     (''volume increased +'' @ str_int a @ ''% (now: '' @ str_int (v + a) @ ''%)'',
      VolumeUpCommand a (v + a), t)"
| "execute (VolumeDownCommand a v) t =
     (''volume decreased -'' @ str_int a @ ''% (now: '' @ str_int (v - a) @ ''%)'',
      VolumeDownCommand a (v - a), t)"
| "execute (MediaPlayerCommand p) t = (''media player launched'', MediaPlayerCommand True, t)"

fun undo_command :: "command \<Rightarrow> string \<Rightarrow> string \<times> command \<times> string" where
  "undo_command (PrintCharCommand c) t = (butlast t, PrintCharCommand c, butlast t)"
| "undo_command (VolumeUpCommand a v) t =
     (''volume decreased +'' @ str_int a @ ''% (now: '' @ str_int (v - a) @ ''%)'',
      VolumeUpCommand a (v - a), t)"
| "undo_command (VolumeDownCommand a v) t =
     (''volume increased -'' @ str_int a @ ''% (now: '' @ str_int (v + a) @ ''%)'',
      VolumeDownCommand a (v + a), t)"
| "undo_command (MediaPlayerCommand p) t = (''media player closed'', MediaPlayerCommand False, t)"

fun redo_command :: "command \<Rightarrow> string \<Rightarrow> string \<times> command \<times> string" where
  "redo_command (PrintCharCommand c) t = execute (PrintCharCommand c) t"
| "redo_command (VolumeUpCommand a v) t = execute (VolumeUpCommand a v) t"
| "redo_command (VolumeDownCommand a v) t = execute (VolumeDownCommand a v) t"
| "redo_command (MediaPlayerCommand p) t = execute (MediaPlayerCommand p) t"

subsection \<open>Dictionaries\<close>

text \<open>
  A Python \<^verbatim>\<open>dict\<close> keeps its keys in insertion order, and \<^verbatim>\<open>from_keyboard\<close> walks
  the binding table in that order: the table is an association list with one entry per
  key. Assigning to a key that is present keeps its place; a new key goes to the end.
\<close>

fun dict_set :: "('k \<times> 'v) list \<Rightarrow> 'k \<Rightarrow> 'v \<Rightarrow> ('k \<times> 'v) list" where
  "dict_set [] k v = [(k, v)]"
| "dict_set ((k', v') # d) k v = (if k' = k then (k, v) # d else (k', v') # dict_set d k v)"

subsection \<open>The keyboard\<close>

text \<open>
  \<open>PrintChar_text\<close> is the class attribute \<^verbatim>\<open>PrintCharCommand.text\<close>; \<open>objs\<close> is the
  store of command objects. A binding is \<open>None\<close> (Python's \<^verbatim>\<open>None\<close>) or the address of
  a command; an entry of \<open>history\<close> or \<open>undo_stack\<close> is the pair of the
  \<^verbatim>\<open>"key"\<close> and the address under \<^verbatim>\<open>"command"\<close>. Both stacks grow at the end of
  the list, as \<^verbatim>\<open>append\<close> and \<^verbatim>\<open>pop\<close> do.
\<close>

record keyboard =
  PrintChar_text :: string
  objs :: "command list"
  key_bindings :: "(string \<times> nat option) list"
  history :: "(string \<times> nat) list"
  undo_stack :: "(string \<times> nat) list"

definition new_command :: "keyboard \<Rightarrow> command \<Rightarrow> nat \<times> keyboard" where
  "new_command k c = (length (objs k), k\<lparr>objs := objs k @ [c]\<rparr>)"

definition bind_key :: "keyboard \<Rightarrow> string \<Rightarrow> nat option \<Rightarrow> keyboard" where
  "bind_key k key command = k\<lparr>key_bindings := dict_set (key_bindings k) key command\<rparr>"

definition bind_new :: "keyboard \<Rightarrow> string \<Rightarrow> command \<Rightarrow> keyboard" where
  "bind_new k key c = (case new_command k c of (a, k') \<Rightarrow> bind_key k' key (Some a))"

definition init_default_bindings :: "keyboard \<Rightarrow> keyboard" where
  "init_default_bindings k0 =
     (let k1 = bind_new k0 ''a'' (PrintCharCommand ''a'');
          k2 = bind_new k1 ''b'' (PrintCharCommand ''b'');
          k3 = bind_new k2 ''c'' (PrintCharCommand ''c'');
          k4 = bind_new k3 ''d'' (PrintCharCommand ''d'');
          k5 = bind_new k4 ''ctrl++'' (VolumeUpCommand 20 50);
          k6 = bind_new k5 ''ctrl+-'' (VolumeDownCommand 20 50);
          k7 = bind_new k6 ''ctrl+p'' (MediaPlayerCommand False);
          k8 = bind_key k7 ''undo'' None
      in bind_key k8 ''redo'' None)"

text \<open>
  The constructor of \<^verbatim>\<open>VirtualKeyboard\<close>. It does not touch the class attribute
  \<^verbatim>\<open>PrintCharCommand.text\<close>, whose current value is the argument (the empty string when
  the module has just been loaded).
\<close>

definition VirtualKeyboard :: "string \<Rightarrow> keyboard" where
  "VirtualKeyboard t =
     init_default_bindings
       \<lparr>PrintChar_text = t, objs = [], key_bindings = [], history = [], undo_stack = []\<rparr>"

text \<open>
  \<^verbatim>\<open>self.key_bindings.get(key)\<close>: the bound command, or \<open>None\<close> both for a key that is
  absent and for a key bound to \<^verbatim>\<open>None\<close>. A command object is always true in a
  condition, so \<^verbatim>\<open>not command\<close> holds exactly when the result is \<open>None\<close>.
\<close>

definition get_binding :: "keyboard \<Rightarrow> string \<Rightarrow> nat option" where
  "get_binding k key = (case map_of (key_bindings k) key of Some (Some a) \<Rightarrow> Some a | _ \<Rightarrow> None)"

definition undo :: "keyboard \<Rightarrow> string \<times> keyboard" where
  "undo k =
     (if history k = [] then (''Nothing to undo'', k)
      else case last (history k) of (key, a) \<Rightarrow>
        (case undo_command (objs k ! a) (PrintChar_text k) of (result, c', t') \<Rightarrow>
          (''undo: '' @ result,
           k\<lparr>PrintChar_text := t', objs := (objs k)[a := c'],
             history := butlast (history k), undo_stack := undo_stack k @ [(key, a)]\<rparr>)))"

definition redo :: "keyboard \<Rightarrow> string \<times> keyboard" where
  "redo k =
     (if undo_stack k = [] then (''Nothing to redo'', k)
      else case last (undo_stack k) of (key, a) \<Rightarrow>
        (case redo_command (objs k ! a) (PrintChar_text k) of (result, c', t') \<Rightarrow>
          (''redo: '' @ result,
           k\<lparr>PrintChar_text := t', objs := (objs k)[a := c'],
             history := history k @ [(key, a)], undo_stack := butlast (undo_stack k)\<rparr>)))"

definition press_key :: "keyboard \<Rightarrow> string \<Rightarrow> string \<times> keyboard" where
  "press_key k key =
     (if key = ''undo'' then undo k
      else if key = ''redo'' then redo k
      else
        let k1 = (if get_binding k key = None \<and> length key = 1
                  then bind_new k key (PrintCharCommand key) else k)
        in case get_binding k1 key of
             Some a \<Rightarrow>
               (case execute (objs k1 ! a) (PrintChar_text k1) of (result, c', t') \<Rightarrow>
                 (result,
                  k1\<lparr>PrintChar_text := t', objs := (objs k1)[a := c'],
                     history := history k1 @ [(key, a)], undo_stack := []\<rparr>))
           | None \<Rightarrow> (''Unknown key: '' @ key, k1))"

text \<open>A session: the keys pressed one after the other.\<close>

fun press_keys :: "keyboard \<Rightarrow> string list \<Rightarrow> keyboard" where
  "press_keys k [] = k"
| "press_keys k (key # keys) = press_keys (snd (press_key k key)) keys"

subsection \<open>Snapshots\<close>

text \<open>
  A snapshot is the parsed JSON document in the shape \<^verbatim>\<open>from_keyboard\<close> writes. Every
  key that \<^verbatim>\<open>load_state\<close> reads may be missing (\<open>None\<close> for a missing key), a class
  name may be any string and a \<^verbatim>\<open>"state"\<close> object may hold any set of keys. The values
  have the types of the constructors' annotations: \<^verbatim>\<open>char: str\<close>,
  \<^verbatim>\<open>amount: int\<close>, \<^verbatim>\<open>current_volume: int\<close>, \<^verbatim>\<open>is_playing: bool\<close>. The keys of
  a \<^verbatim>\<open>"state"\<close> object other than these four are listed by name in \<open>st_other\<close>.
\<close>

record command_state =
  st_char :: "string option"
  st_amount :: "int option"
  st_current_volume :: "int option"
  st_is_playing :: "bool option"
  st_other :: "string list"

record command_data =
  cd_class :: "string option"
  cd_state :: "command_state option"

record snapshot =
  sn_text :: "string option"
  sn_key_bindings :: "(string \<times> command_data option) list option"
  sn_history :: "string list option"
  sn_undo_stack :: "string list option"

definition no_state :: command_state where
  "no_state = \<lparr>st_char = None, st_amount = None, st_current_volume = None,
                st_is_playing = None, st_other = []\<rparr>"

text \<open>\<^verbatim>\<open>command.__class__.__name__\<close> and \<^verbatim>\<open>command.__dict__.copy()\<close>.\<close>

fun class_name :: "command \<Rightarrow> string" where
  "class_name (PrintCharCommand c) = ''PrintCharCommand''"
| "class_name (VolumeUpCommand a v) = ''VolumeUpCommand''"
| "class_name (VolumeDownCommand a v) = ''VolumeDownCommand''"
| "class_name (MediaPlayerCommand p) = ''MediaPlayerCommand''"

fun dict_of :: "command \<Rightarrow> command_state" where
  "dict_of (PrintCharCommand c) = no_state\<lparr>st_char := Some c\<rparr>"
| "dict_of (VolumeUpCommand a v) = no_state\<lparr>st_amount := Some a, st_current_volume := Some v\<rparr>"
| "dict_of (VolumeDownCommand a v) = no_state\<lparr>st_amount := Some a, st_current_volume := Some v\<rparr>"
| "dict_of (MediaPlayerCommand p) = no_state\<lparr>st_is_playing := Some p\<rparr>"

definition from_keyboard :: "keyboard \<Rightarrow> snapshot" where
  "from_keyboard k =
     \<lparr>sn_text = Some (PrintChar_text k),
      sn_key_bindings = Some (map (\<lambda>(key, command).
          (key, case command of
                  None \<Rightarrow> None
                | Some a \<Rightarrow> Some \<lparr>cd_class = Some (class_name (objs k ! a)),
                                   cd_state = Some (dict_of (objs k ! a))\<rparr>))
        (key_bindings k)),
      sn_history = Some (map fst (history k)),
      sn_undo_stack = Some (map fst (undo_stack k))\<rparr>"

text \<open>
  The exceptions \<^verbatim>\<open>load_state\<close> can meet. Its \<^verbatim>\<open>except\<close> clause catches
  \<^verbatim>\<open>FileNotFoundError\<close>, \<^verbatim>\<open>JSONDecodeError\<close>, \<^verbatim>\<open>KeyError\<close> and
  \<^verbatim>\<open>AttributeError\<close>; a \<^verbatim>\<open>TypeError\<close> leaves the method.
\<close>

datatype exn = FileNotFoundError | JSONDecodeError | KeyError | AttributeError | TypeError

text \<open>
  \<^verbatim>\<open>cls(**state)\<close> for the class found under a name: a keyword that is not a parameter
  of the constructor, or a missing \<^verbatim>\<open>char\<close>, is a \<^verbatim>\<open>TypeError\<close>; the parameters
  of the other three constructors have defaults. A name that is not one of the four
  subclasses of \<^verbatim>\<open>Command\<close> is a \<^verbatim>\<open>KeyError\<close> of \<^verbatim>\<open>class_names\<close>.
\<close>

definition construct :: "string \<Rightarrow> command_state \<Rightarrow> exn + command" where
  "construct cls st =
     (if cls = ''PrintCharCommand'' then
        (case st_char st of
           Some c \<Rightarrow>
             if st_amount st = None \<and> st_current_volume st = None \<and> st_is_playing st = None
                \<and> st_other st = []
             then Inr (PrintCharCommand c) else Inl TypeError
         | None \<Rightarrow> Inl TypeError)
      else if cls = ''VolumeUpCommand'' then
        (if st_char st = None \<and> st_is_playing st = None \<and> st_other st = []
         then Inr (VolumeUpCommand (case st_amount st of Some a \<Rightarrow> a | None \<Rightarrow> 20)
                                   (case st_current_volume st of Some v \<Rightarrow> v | None \<Rightarrow> 50))
         else Inl TypeError)
      else if cls = ''VolumeDownCommand'' then
        (if st_char st = None \<and> st_is_playing st = None \<and> st_other st = []
         then Inr (VolumeDownCommand (case st_amount st of Some a \<Rightarrow> a | None \<Rightarrow> 20)
                                     (case st_current_volume st of Some v \<Rightarrow> v | None \<Rightarrow> 50))
         else Inl TypeError)
      else if cls = ''MediaPlayerCommand'' then
        (if st_char st = None \<and> st_amount st = None \<and> st_current_volume st = None
            \<and> st_other st = []
         then Inr (MediaPlayerCommand (case st_is_playing st of Some p \<Rightarrow> p | None \<Rightarrow> False))
         else Inl TypeError)
      else Inl KeyError)"

text \<open>
  \<^verbatim>\<open>class_names[command_data['class']](**command_data['state'])\<close>: the class is looked
  up first, then the \<^verbatim>\<open>"state"\<close> key, then the constructor is called.
\<close>

definition known_class :: "string \<Rightarrow> bool" where
  "known_class cls = (cls \<in> set [''PrintCharCommand'', ''VolumeUpCommand'',
                                  ''VolumeDownCommand'', ''MediaPlayerCommand''])"

definition make_command :: "command_data \<Rightarrow> exn + command" where
  "make_command cd =
     (case cd_class cd of
        None \<Rightarrow> Inl KeyError
      | Some cls \<Rightarrow>
          if \<not> known_class cls then Inl KeyError
          else (case cd_state cd of
                  None \<Rightarrow> Inl KeyError
                | Some st \<Rightarrow> construct cls st))"

text \<open>
  The loop over \<^verbatim>\<open>state.get('key_bindings', {}).items()\<close>. It stops at the first
  exception, with the entries before it already in the table.
\<close>

fun load_bindings :: "(string \<times> command_data option) list \<Rightarrow> keyboard \<Rightarrow> exn option \<times> keyboard" where
  "load_bindings [] k = (None, k)"
| "load_bindings ((key, None) # es) k = load_bindings es (bind_key k key None)"
| "load_bindings ((key, Some cd) # es) k =
     (case make_command cd of
        Inl e \<Rightarrow> (Some e, k)
      | Inr c \<Rightarrow> load_bindings es (bind_new k key c))"

text \<open>
  The comprehension that rebuilds a stack: the listed keys that are in the table and not
  bound to \<^verbatim>\<open>None\<close>, each with the command the table holds for it.
\<close>

definition rebuild :: "keyboard \<Rightarrow> string list \<Rightarrow> (string \<times> nat) list" where
  "rebuild k keys =
     List.map_filter (\<lambda>key. case get_binding k key of Some a \<Rightarrow> Some (key, a) | None \<Rightarrow> None) keys"

text \<open>
  What \<^verbatim>\<open>open\<close> and \<^verbatim>\<open>json.load\<close> give: no such file, a file that is not JSON, or
  the parsed document.
\<close>

datatype state_file = Missing | Unparsable | Parsed snapshot

definition except :: "exn \<Rightarrow> exn + bool" where
  "except e = (if e = TypeError then Inl TypeError else Inr False)"

definition load_state :: "state_file \<Rightarrow> keyboard \<Rightarrow> (exn + bool) \<times> keyboard" where
  "load_state f k =
     (case f of
        Missing \<Rightarrow> (except FileNotFoundError, k)
      | Unparsable \<Rightarrow> (except JSONDecodeError, k)
      | Parsed state \<Rightarrow>
          (case sn_text state of
             None \<Rightarrow> (except KeyError, k)
           | Some t \<Rightarrow>
               (case load_bindings (case sn_key_bindings state of None \<Rightarrow> [] | Some es \<Rightarrow> es)
                       (k\<lparr>PrintChar_text := t, key_bindings := []\<rparr>) of
                  (Some e, k1) \<Rightarrow> (except e, k1)
                | (None, k1) \<Rightarrow>
                    (let k2 = k1\<lparr>history :=
                                   rebuild k1 (case sn_history state of None \<Rightarrow> [] | Some keys \<Rightarrow> keys)\<rparr>;
                         k3 = k2\<lparr>undo_stack :=
                                   rebuild k2 (case sn_undo_stack state of None \<Rightarrow> [] | Some keys \<Rightarrow> keys)\<rparr>
                     in (Inr True, k3)))))"

subsection \<open>What the history has printed, and well-formed keyboards\<close>

text \<open>
  \<open>printed c\<close> is what one \<^verbatim>\<open>execute\<close> of \<open>c\<close> adds to the text: the character of a
  \<^verbatim>\<open>PrintCharCommand\<close>, nothing for the other classes. \<open>applied_chars k\<close> is the
  concatenation of that over \<^verbatim>\<open>history\<close>, oldest entry first.
\<close>

fun printed :: "command \<Rightarrow> string" where
  "printed (PrintCharCommand c) = c"
| "printed (VolumeUpCommand a v) = []"
| "printed (VolumeDownCommand a v) = []"
| "printed (MediaPlayerCommand p) = []"

definition chars_of :: "command list \<Rightarrow> (string \<times> nat) list \<Rightarrow> string" where
  "chars_of os entries = concat (map (\<lambda>(key, a). printed (os ! a)) entries)"

definition applied_chars :: "keyboard \<Rightarrow> string" where
  "applied_chars k = chars_of (objs k) (history k)"

text \<open>
  The keyboards that key presses reach from a new one: the table has one entry per key,
  every bound address is an object of the store, every stack entry holds the object the
  table binds to its key, and every \<^verbatim>\<open>PrintCharCommand\<close> prints a single character.
\<close>

fun single :: "command \<Rightarrow> bool" where
  "single (PrintCharCommand c) = (length c = 1)"
| "single (VolumeUpCommand a v) = True"
| "single (VolumeDownCommand a v) = True"
| "single (MediaPlayerCommand p) = True"

definition wf :: "keyboard \<Rightarrow> bool" where
  "wf k \<longleftrightarrow>
     distinct (map fst (key_bindings k))
   \<and> (\<forall>key a. map_of (key_bindings k) key = Some (Some a) \<longrightarrow> a < length (objs k))
   \<and> (\<forall>(key, a) \<in> set (history k) \<union> set (undo_stack k).
         map_of (key_bindings k) key = Some (Some a))
   \<and> (\<forall>c \<in> set (objs k). single c)"

subsection \<open>What a table binds, what a snapshot entry builds\<close>

text \<open>
  \<open>bound_cmd k key\<close> reads the table through the store: \<open>None\<close> for a key that is not in
  the table, \<open>Some None\<close> for a key bound to \<^verbatim>\<open>None\<close>, and the command value for a key
  bound to a command. \<open>stack_cmds\<close> reads a stack the same way. \<open>valid k\<close> says that
  every bound address is an object of the store.
\<close>

definition bound_cmd :: "keyboard \<Rightarrow> string \<Rightarrow> command option option" where
  "bound_cmd k key = map_option (map_option (\<lambda>a. objs k ! a)) (map_of (key_bindings k) key)"

definition stack_cmds :: "keyboard \<Rightarrow> (string \<times> nat) list \<Rightarrow> (string \<times> command) list" where
  "stack_cmds k entries = map (\<lambda>(key, a). (key, objs k ! a)) entries"

definition valid :: "keyboard \<Rightarrow> bool" where
  "valid k \<longleftrightarrow> (\<forall>key a. map_of (key_bindings k) key = Some (Some a) \<longrightarrow> a < length (objs k))"

text \<open>
  An entry of a snapshot's \<^verbatim>\<open>key_bindings\<close> is \<open>loadable\<close> when it is \<^verbatim>\<open>null\<close> or
  the constructor call for it returns; \<open>entry_cmd\<close> is the command it then builds.
  \<open>names_command es key\<close> holds when the snapshot's \<^verbatim>\<open>key_bindings\<close> has \<open>key\<close> with
  an entry other than \<^verbatim>\<open>null\<close>.
\<close>

fun entry_cmd :: "command_data option \<Rightarrow> command option" where
  "entry_cmd None = None"
| "entry_cmd (Some cd) = Some (projr (make_command cd))"

definition loadable :: "command_data option \<Rightarrow> bool" where
  "loadable e = (case e of None \<Rightarrow> True
                 | Some cd \<Rightarrow> (case make_command cd of Inr c \<Rightarrow> True | Inl x \<Rightarrow> False))"

definition names_command :: "(string \<times> command_data option) list \<Rightarrow> string \<Rightarrow> bool" where
  "names_command es key = (case map_of es key of Some (Some cd) \<Rightarrow> True | _ \<Rightarrow> False)"

subsection \<open>Snapshots used as examples\<close>

text \<open>
  \<open>print_data c\<close> is the entry \<^verbatim>\<open>from_keyboard\<close> writes for a \<^verbatim>\<open>PrintCharCommand\<close>.
  \<open>orphan_snapshot\<close> lists in its stacks a key that is not in its \<^verbatim>\<open>key_bindings\<close>
  (\<^verbatim>\<open>ghost\<close>) and a key bound to \<^verbatim>\<open>null\<close> (\<^verbatim>\<open>undo\<close>). In \<open>bad_class_snapshot\<close> the
  entry for \<^verbatim>\<open>z\<close> names a class that does not exist; in \<open>bad_fields_snapshot\<close> its
  \<^verbatim>\<open>"state"\<close> has \<^verbatim>\<open>amount\<close> and no \<^verbatim>\<open>char\<close>, which is not what the constructor of
  \<^verbatim>\<open>PrintCharCommand\<close> takes.
\<close>

definition print_data :: "string \<Rightarrow> command_data" where
  "print_data c = \<lparr>cd_class = Some ''PrintCharCommand'',
                    cd_state = Some (no_state\<lparr>st_char := Some c\<rparr>)\<rparr>"

definition orphan_snapshot :: snapshot where
  "orphan_snapshot =
     \<lparr>sn_text = Some ''aa'',
      sn_key_bindings = Some [(''a'', Some (print_data ''a'')), (''undo'', None)],
      sn_history = Some [''a'', ''ghost'', ''undo'', ''a''],
      sn_undo_stack = Some [''ghost'']\<rparr>"

definition bad_class_snapshot :: snapshot where
  "bad_class_snapshot =
     \<lparr>sn_text = Some ''a'',
      sn_key_bindings = Some [(''a'', Some (print_data ''a'')),
                              (''z'', Some \<lparr>cd_class = Some ''LaunchRocket'', cd_state = Some no_state\<rparr>),
                              (''b'', Some (print_data ''b''))],
      sn_history = Some [''a''],
      sn_undo_stack = Some []\<rparr>"

definition bad_fields_snapshot :: snapshot where
  "bad_fields_snapshot =
     \<lparr>sn_text = Some ''a'',
      sn_key_bindings = Some [(''a'', Some (print_data ''a'')),
                              (''z'', Some \<lparr>cd_class = Some ''PrintCharCommand'',
                                               cd_state = Some (no_state\<lparr>st_amount := Some 5\<rparr>)\<rparr>),
                              (''b'', Some (print_data ''b''))],
      sn_history = Some [''a''],
      sn_undo_stack = Some []\<rparr>"

section \<open>Properties\<close>

subsection \<open>Dictionaries and bindings\<close>

lemma map_of_dict_set: "map_of (dict_set d k v) = (map_of d)(k \<mapsto> v)"
  by (induction d k v rule: dict_set.induct) auto

lemma dict_set_absent: "map_of d k = None \<Longrightarrow> dict_set d k v = d @ [(k, v)]"
  by (induction d k v rule: dict_set.induct) (auto split: if_splits)

lemma dict_set_present: "map_of d k \<noteq> None \<Longrightarrow> map fst (dict_set d k v) = map fst d"
  by (induction d k v rule: dict_set.induct) (auto split: if_splits)

lemma fst_set_dict_set: "fst ` set (dict_set d k v) = insert k (fst ` set d)"
  by (induction d k v rule: dict_set.induct) auto

lemma distinct_dict_set: "distinct (map fst d) \<Longrightarrow> distinct (map fst (dict_set d k v))"
  by (induction d k v rule: dict_set.induct) (auto simp: fst_set_dict_set)

lemma get_binding_bind_new: "get_binding (bind_new k key c) key = Some (length (objs k))"
  by (simp add: get_binding_def bind_new_def new_command_def bind_key_def map_of_dict_set)

subsection \<open>The three branches of \<^verbatim>\<open>press_key\<close>\<close>

lemma press_key_fresh:
  assumes "length x = 1" and "get_binding k x = None"
  shows "press_key k x =
    (PrintChar_text k @ x,
     k\<lparr>PrintChar_text := PrintChar_text k @ x, objs := objs k @ [PrintCharCommand x],
       key_bindings := dict_set (key_bindings k) x (Some (length (objs k))),
       history := history k @ [(x, length (objs k))], undo_stack := []\<rparr>)"
proof -
  have r: "x \<noteq> ''undo''" "x \<noteq> ''redo''" using assms(1) by auto
  show ?thesis
    using assms r
    by (simp add: press_key_def get_binding_bind_new)
       (simp add: bind_new_def new_command_def bind_key_def)
qed

lemma press_key_unknown:
  assumes "key \<noteq> ''undo''" and "key \<noteq> ''redo''" and "length key \<noteq> 1"
    and "get_binding k key = None"
  shows "press_key k key = (''Unknown key: '' @ key, k)"
  using assms by (simp add: press_key_def)

lemma press_key_bound:
  assumes "key \<noteq> ''undo''" and "key \<noteq> ''redo''" and "get_binding k key = Some a"
  shows "press_key k key =
    (case execute (objs k ! a) (PrintChar_text k) of (result, c', t') \<Rightarrow>
       (result, k\<lparr>PrintChar_text := t', objs := (objs k)[a := c'],
                  history := history k @ [(key, a)], undo_stack := []\<rparr>))"
  using assms by (simp add: press_key_def)

subsection \<open>Commands\<close>

text \<open>
  Claim C6. For each of the four command classes, in every state of the object and of
  the text buffer, \<^verbatim>\<open>redo\<close> returns what \<^verbatim>\<open>execute\<close> returns and leaves the object
  and the buffer as \<^verbatim>\<open>execute\<close> leaves them.
\<close>

theorem redo_is_execute: "redo_command c t = execute c t"
  by (cases c) simp_all

subsection \<open>Pressing keys\<close>

text \<open>
  Claim C3, as the code has it. After \<^verbatim>\<open>press_key\<close> with a key other than
  \<^verbatim>\<open>"undo"\<close> and \<^verbatim>\<open>"redo"\<close>, \<^verbatim>\<open>undo_stack\<close> is empty when the key resolved to a
  command (it was bound to one, or it is a single character); a key that resolves to
  nothing leaves \<^verbatim>\<open>undo_stack\<close> as it was.
\<close>

theorem press_clears_undo_stack:
  assumes "key \<noteq> ''undo''" and "key \<noteq> ''redo''"
  shows "undo_stack (snd (press_key k key)) =
           (if get_binding k key = None \<and> length key \<noteq> 1 then undo_stack k else [])"
proof (cases "get_binding k key")
  case None
  show ?thesis
  proof (cases "length key = 1")
    case True
    with None show ?thesis by (simp add: press_key_fresh)
  next
    case False
    with None assms show ?thesis by (simp add: press_key_unknown)
  qed
next
  case (Some a)
  with assms show ?thesis
    by (simp add: press_key_bound split: prod.splits)
qed

theorem press_clears_undo_stack_witness:
  "''b'' \<noteq> ''undo'' \<and> ''b'' \<noteq> ''redo''
   \<and> undo_stack (press_keys (VirtualKeyboard []) [''a'', ''undo'']) = [(''a'', 0)]
   \<and> undo_stack (snd (press_key (press_keys (VirtualKeyboard []) [''a'', ''undo'']) ''b'')) = []"
proof -
  have h1: "''b'' \<noteq> ''undo''" and h2: "''b'' \<noteq> ''redo''" by simp_all
  have u: "undo_stack (press_keys (VirtualKeyboard []) [''a'', ''undo'']) = [(''a'', 0)]"
    by code_simp
  have l: "length ''b'' = 1" by simp
  show ?thesis
    using press_clears_undo_stack [OF h1 h2, of "press_keys (VirtualKeyboard []) [''a'', ''undo'']"]
      u l by simp
qed

text \<open>
  Claim C3 as the specification words it fails: after \<^verbatim>\<open>a\<close> and \<^verbatim>\<open>undo\<close>, the key
  \<^verbatim>\<open>xyz\<close> is bound to nothing and is not a single character, and pressing it leaves
  the undone \<^verbatim>\<open>a\<close> on \<^verbatim>\<open>undo_stack\<close>.
\<close>

theorem unknown_key_keeps_undo_stack:
  "''xyz'' \<noteq> ''undo'' \<and> ''xyz'' \<noteq> ''redo''
   \<and> press_key (press_keys (VirtualKeyboard []) [''a'', ''undo'']) ''xyz''
       = (''Unknown key: xyz'', press_keys (VirtualKeyboard []) [''a'', ''undo''])
   \<and> undo_stack (snd (press_key (press_keys (VirtualKeyboard []) [''a'', ''undo'']) ''xyz''))
       = [(''a'', 0)]"
  by code_simp

text \<open>
  Claim C8. Pressing a key that is bound to no command and is not a single character,
  pressing \<^verbatim>\<open>undo\<close> with an empty \<^verbatim>\<open>history\<close> and pressing \<^verbatim>\<open>redo\<close> with an empty
  \<^verbatim>\<open>undo_stack\<close> each return a string and leave the whole keyboard (text, objects,
  bindings and both stacks) as it was.
\<close>

theorem quiet_presses:
  "(key \<noteq> ''undo'' \<and> key \<noteq> ''redo'' \<and> length key \<noteq> 1 \<and> get_binding k key = None
      \<longrightarrow> press_key k key = (''Unknown key: '' @ key, k))
   \<and> (history k = [] \<longrightarrow> press_key k ''undo'' = (''Nothing to undo'', k))
   \<and> (undo_stack k = [] \<longrightarrow> press_key k ''redo'' = (''Nothing to redo'', k))"
  by (simp add: press_key_unknown) (simp add: press_key_def undo_def redo_def)

theorem quiet_presses_witness:
  "press_key (VirtualKeyboard []) ''xyz'' = (''Unknown key: xyz'', VirtualKeyboard [])
   \<and> press_key (VirtualKeyboard []) ''undo'' = (''Nothing to undo'', VirtualKeyboard [])
   \<and> press_key (VirtualKeyboard []) ''redo'' = (''Nothing to redo'', VirtualKeyboard [])"
proof -
  have b: "get_binding (VirtualKeyboard []) ''xyz'' = None" by code_simp
  have h: "history (VirtualKeyboard []) = []" by code_simp
  have u: "undo_stack (VirtualKeyboard []) = []" by code_simp
  show ?thesis
    using quiet_presses [of "''xyz''" "VirtualKeyboard []"] b h u by simp
qed

text \<open>
  Claim C7. Pressing a single character \<open>x\<close> that is not in the table adds one
  entry to the table, bound to a new \<^verbatim>\<open>PrintCharCommand\<close> for \<open>x\<close>, and runs that
  command; a second press finds the same object: no object is created, the table does
  not change, and the new history entry holds the same address.
\<close>

theorem auto_bind_once:
  assumes "length x = 1" and "map_of (key_bindings k) x = None"
  shows "(let a = length (objs k); k1 = snd (press_key k x); k2 = snd (press_key k1 x) in
          key_bindings k1 = key_bindings k @ [(x, Some a)]
        \<and> objs k1 = objs k @ [PrintCharCommand x]
        \<and> history k1 = history k @ [(x, a)]
        \<and> PrintChar_text k1 = PrintChar_text k @ x
        \<and> key_bindings k2 = key_bindings k1
        \<and> objs k2 = objs k1
        \<and> history k2 = history k1 @ [(x, a)]
        \<and> PrintChar_text k2 = PrintChar_text k1 @ x)"
proof -
  define a where "a = length (objs k)"
  define k1 where "k1 = snd (press_key k x)"
  have g: "get_binding k x = None" using assms(2) by (simp add: get_binding_def)
  have k1: "k1 = k\<lparr>PrintChar_text := PrintChar_text k @ x, objs := objs k @ [PrintCharCommand x],
       key_bindings := key_bindings k @ [(x, Some a)],
       history := history k @ [(x, a)], undo_stack := []\<rparr>"
    using assms g by (simp add: k1_def a_def press_key_fresh dict_set_absent)
  have r: "x \<noteq> ''undo''" "x \<noteq> ''redo''" using assms(1) by auto
  have g1: "get_binding k1 x = Some a"
    using assms(2) by (simp add: k1 get_binding_def map_add_def)
  have e: "objs k1 ! a = PrintCharCommand x" by (simp add: k1 a_def)
  have k2: "snd (press_key k1 x) = k1\<lparr>PrintChar_text := PrintChar_text k1 @ x,
       objs := (objs k1)[a := PrintCharCommand x],
       history := history k1 @ [(x, a)], undo_stack := []\<rparr>"
    using r g1 e by (simp add: press_key_bound)
  have u: "(objs k1)[a := PrintCharCommand x] = objs k1" by (simp add: k1 a_def)
  show ?thesis
    unfolding Let_def a_def [symmetric] k1_def [symmetric] k2 u
    by (simp add: k1)
qed

theorem auto_bind_once_witness:
  "length ''z'' = 1 \<and> map_of (key_bindings (VirtualKeyboard [])) ''z'' = None
   \<and> (let a = length (objs (VirtualKeyboard [])); k1 = snd (press_key (VirtualKeyboard []) ''z'');
            k2 = snd (press_key k1 ''z'') in
          key_bindings k1 = key_bindings (VirtualKeyboard []) @ [(''z'', Some a)]
        \<and> objs k1 = objs (VirtualKeyboard []) @ [PrintCharCommand ''z'']
        \<and> history k1 = history (VirtualKeyboard []) @ [(''z'', a)]
        \<and> PrintChar_text k1 = PrintChar_text (VirtualKeyboard []) @ ''z''
        \<and> key_bindings k2 = key_bindings k1
        \<and> objs k2 = objs k1
        \<and> history k2 = history k1 @ [(''z'', a)]
        \<and> PrintChar_text k2 = PrintChar_text k1 @ ''z'')"
proof -
  have h1: "length ''z'' = 1" by simp
  have h2: "map_of (key_bindings (VirtualKeyboard [])) ''z'' = None" by code_simp
  show ?thesis
    by (rule conjI [OF h1 conjI [OF h2 auto_bind_once [OF h1 h2]]])
qed

text \<open>
  Claim C10. A single character bound to \<^verbatim>\<open>None\<close> is pressed like one that is not in
  the table: the binding is overwritten in place with a new \<^verbatim>\<open>PrintCharCommand\<close> for
  it, which is run; a keyboard \<open>k'\<close> that differs from \<open>k\<close> only in not having the key
  returns the same string and ends with the same text, objects, stacks and binding of
  the key.
\<close>

theorem explicit_none_rebound:
  assumes "length x = 1" and "map_of (key_bindings k) x = Some None"
    and "map_of (key_bindings k') x = None"
    and "PrintChar_text k' = PrintChar_text k" and "objs k' = objs k" and "history k' = history k"
  shows "press_key k x =
      (PrintChar_text k @ x,
       k\<lparr>PrintChar_text := PrintChar_text k @ x, objs := objs k @ [PrintCharCommand x],
         key_bindings := dict_set (key_bindings k) x (Some (length (objs k))),
         history := history k @ [(x, length (objs k))], undo_stack := []\<rparr>)
    \<and> map fst (key_bindings (snd (press_key k x))) = map fst (key_bindings k)
    \<and> map_of (key_bindings (snd (press_key k x))) x = Some (Some (length (objs k)))
    \<and> fst (press_key k' x) = fst (press_key k x)
    \<and> PrintChar_text (snd (press_key k' x)) = PrintChar_text (snd (press_key k x))
    \<and> objs (snd (press_key k' x)) = objs (snd (press_key k x))
    \<and> history (snd (press_key k' x)) = history (snd (press_key k x))
    \<and> undo_stack (snd (press_key k' x)) = undo_stack (snd (press_key k x))
    \<and> map_of (key_bindings (snd (press_key k' x))) x = map_of (key_bindings (snd (press_key k x))) x"
proof -
  have g: "get_binding k x = None" using assms(2) by (simp add: get_binding_def)
  have g': "get_binding k' x = None" using assms(3) by (simp add: get_binding_def)
  note p = press_key_fresh [OF assms(1) g] and p' = press_key_fresh [OF assms(1) g']
  have m: "map fst (dict_set (key_bindings k) x (Some (length (objs k)))) = map fst (key_bindings k)"
    using assms(2) by (simp add: dict_set_present)
  show ?thesis
    unfolding p p' using m assms(4-6) by (simp add: map_of_dict_set)
qed

theorem explicit_none_rebound_witness:
  "length ''z'' = 1
   \<and> map_of (key_bindings (bind_key (VirtualKeyboard []) ''z'' None)) ''z'' = Some None
   \<and> map_of (key_bindings (VirtualKeyboard [])) ''z'' = None
   \<and> fst (press_key (VirtualKeyboard []) ''z'')
        = fst (press_key (bind_key (VirtualKeyboard []) ''z'' None) ''z'')
   \<and> map_of (key_bindings (snd (press_key (bind_key (VirtualKeyboard []) ''z'' None) ''z''))) ''z''
        = Some (Some (length (objs (bind_key (VirtualKeyboard []) ''z'' None))))"
proof -
  let ?k = "bind_key (VirtualKeyboard []) ''z'' None" and ?k' = "VirtualKeyboard []"
  have h1: "length ''z'' = 1" by simp
  have h2: "map_of (key_bindings ?k) ''z'' = Some None" by code_simp
  have h3: "map_of (key_bindings ?k') ''z'' = None" by code_simp
  have h4: "PrintChar_text ?k' = PrintChar_text ?k" by code_simp
  have h5: "objs ?k' = objs ?k" by code_simp
  have h6: "history ?k' = history ?k" by code_simp
  show ?thesis
    using explicit_none_rebound [OF h1 h2 h3 h4 h5 h6] h1 h2 h3 by blast
qed

subsection \<open>Loading a snapshot\<close>

lemma load_bindings_append:
  "load_bindings (es @ es') k =
     (case load_bindings es k of (None, k') \<Rightarrow> load_bindings es' k' | (Some e, k') \<Rightarrow> (Some e, k'))"
  by (induction es k rule: load_bindings.induct) (auto split: sum.splits)

lemma load_bindings_keeps:
  "history (snd (load_bindings es k)) = history k
   \<and> undo_stack (snd (load_bindings es k)) = undo_stack k
   \<and> PrintChar_text (snd (load_bindings es k)) = PrintChar_text k"
  by (induction es k rule: load_bindings.induct)
     (auto simp: bind_key_def bind_new_def new_command_def split: sum.splits)

lemma make_command_unknown: "cd_class cd = Some cls \<Longrightarrow> \<not> known_class cls \<Longrightarrow> make_command cd = Inl KeyError"
  by (simp add: make_command_def)

text \<open>
  Claim C9. A load that fails is not undone: when the first entry of
  \<^verbatim>\<open>key_bindings\<close> names a class that does not exist, \<^verbatim>\<open>load_state\<close> returns
  \<^verbatim>\<open>False\<close>, and the keyboard it leaves has the snapshot's text and an empty binding
  table.
\<close>

theorem failed_load_not_atomic:
  assumes "\<not> known_class cls"
  shows "load_state (Parsed \<lparr>sn_text = Some t,
            sn_key_bindings = Some ((key, Some \<lparr>cd_class = Some cls, cd_state = st\<rparr>) # es),
            sn_history = h, sn_undo_stack = u\<rparr>) k
         = (Inr False, k\<lparr>PrintChar_text := t, key_bindings := []\<rparr>)"
  using assms by (simp add: load_state_def make_command_def except_def)

theorem failed_load_not_atomic_witness:
  "\<not> known_class ''LaunchRocket''
   \<and> fst (load_state (Parsed \<lparr>sn_text = Some ''xyz'',
            sn_key_bindings = Some [(''k'', Some \<lparr>cd_class = Some ''LaunchRocket'', cd_state = Some no_state\<rparr>)],
            sn_history = Some [], sn_undo_stack = Some []\<rparr>) (press_keys (VirtualKeyboard []) [''a''])) = Inr False
   \<and> PrintChar_text (press_keys (VirtualKeyboard []) [''a'']) = ''a''
   \<and> length (key_bindings (press_keys (VirtualKeyboard []) [''a''])) = 9
   \<and> PrintChar_text (snd (load_state (Parsed \<lparr>sn_text = Some ''xyz'',
            sn_key_bindings = Some [(''k'', Some \<lparr>cd_class = Some ''LaunchRocket'', cd_state = Some no_state\<rparr>)],
            sn_history = Some [], sn_undo_stack = Some []\<rparr>) (press_keys (VirtualKeyboard []) [''a'']))) = ''xyz''
   \<and> key_bindings (snd (load_state (Parsed \<lparr>sn_text = Some ''xyz'',
            sn_key_bindings = Some [(''k'', Some \<lparr>cd_class = Some ''LaunchRocket'', cd_state = Some no_state\<rparr>)],
            sn_history = Some [], sn_undo_stack = Some []\<rparr>) (press_keys (VirtualKeyboard []) [''a'']))) = []
   \<and> history (snd (load_state (Parsed \<lparr>sn_text = Some ''xyz'',
            sn_key_bindings = Some [(''k'', Some \<lparr>cd_class = Some ''LaunchRocket'', cd_state = Some no_state\<rparr>)],
            sn_history = Some [], sn_undo_stack = Some []\<rparr>) (press_keys (VirtualKeyboard []) [''a'']))) = [(''a'', 0)]"
proof -
  have h: "\<not> known_class ''LaunchRocket''" by (simp add: known_class_def)
  have t: "PrintChar_text (press_keys (VirtualKeyboard []) [''a'']) = ''a''" by code_simp
  have n: "length (key_bindings (press_keys (VirtualKeyboard []) [''a''])) = 9" by code_simp
  have hi: "history (press_keys (VirtualKeyboard []) [''a'']) = [(''a'', 0)]" by code_simp
  show ?thesis
    unfolding failed_load_not_atomic [OF h] using h t n hi by simp
qed

subsection \<open>Well-formed keyboards and the text\<close>

lemma wfI:
  assumes "distinct (map fst (key_bindings k))"
    and "\<And>key a. map_of (key_bindings k) key = Some (Some a) \<Longrightarrow> a < length (objs k)"
    and "\<And>key a. (key, a) \<in> set (history k) \<Longrightarrow> map_of (key_bindings k) key = Some (Some a)"
    and "\<And>key a. (key, a) \<in> set (undo_stack k) \<Longrightarrow> map_of (key_bindings k) key = Some (Some a)"
    and "\<And>c. c \<in> set (objs k) \<Longrightarrow> single c"
  shows "wf k"
  using assms unfolding wf_def by blast

lemma wf_distinct: "wf k \<Longrightarrow> distinct (map fst (key_bindings k))"
  by (simp add: wf_def)

lemma wf_bound: "wf k \<Longrightarrow> map_of (key_bindings k) key = Some (Some a) \<Longrightarrow> a < length (objs k)"
  unfolding wf_def by blast

lemma wf_history: "wf k \<Longrightarrow> (key, a) \<in> set (history k) \<Longrightarrow> map_of (key_bindings k) key = Some (Some a)"
  unfolding wf_def by blast

lemma wf_undo_stack: "wf k \<Longrightarrow> (key, a) \<in> set (undo_stack k) \<Longrightarrow> map_of (key_bindings k) key = Some (Some a)"
  unfolding wf_def by blast

lemma wf_single: "wf k \<Longrightarrow> c \<in> set (objs k) \<Longrightarrow> single c"
  unfolding wf_def by blast

lemma execute_printed: "printed (fst (snd (execute c t))) = printed c"
  by (cases c) simp_all

lemma execute_single: "single (fst (snd (execute c t))) = single c"
  by (cases c) simp_all

lemma execute_text: "snd (snd (execute c t)) = t @ printed c"
  by (cases c) simp_all

lemma undo_command_printed: "printed (fst (snd (undo_command c t))) = printed c"
  by (cases c) simp_all

lemma undo_command_single: "single (fst (snd (undo_command c t))) = single c"
  by (cases c) simp_all

lemma undo_command_text: "single c \<Longrightarrow> snd (snd (undo_command c (t @ printed c))) = t"
  by (cases c) (auto simp: butlast_append length_Suc_conv)

lemma redo_command_eq: "redo_command c t = execute c t"
  by (cases c) simp_all

lemma printed_update:
  "printed c' = printed (xs ! a) \<Longrightarrow> printed (xs[a := c'] ! b) = printed (xs ! b)"
  by (cases "a < length xs") (auto simp: nth_list_update list_update_beyond not_less)

lemma single_update:
  assumes "\<And>c. c \<in> set xs \<Longrightarrow> single c" and "a < length xs \<Longrightarrow> single c'" and "c \<in> set (xs[a := c'])"
  shows "single c"
proof (cases "a < length xs")
  case True
  then have "set (xs[a := c']) \<subseteq> insert c' (set xs)" by (rule_tac set_update_subset_insert)
  with assms True show ?thesis by auto
next
  case False
  with assms show ?thesis by (simp add: list_update_beyond not_less)
qed


lemma undo_some:
  assumes "history k \<noteq> []" and "last (history k) = (key, a)"
  shows "undo k =
     (''undo: '' @ fst (undo_command (objs k ! a) (PrintChar_text k)),
      k\<lparr>PrintChar_text := snd (snd (undo_command (objs k ! a) (PrintChar_text k))),
        objs := (objs k)[a := fst (snd (undo_command (objs k ! a) (PrintChar_text k)))],
        history := butlast (history k), undo_stack := undo_stack k @ [(key, a)]\<rparr>)"
  using assms by (simp add: undo_def split: prod.splits)

lemma redo_some:
  assumes "undo_stack k \<noteq> []" and "last (undo_stack k) = (key, a)"
  shows "redo k =
     (''redo: '' @ fst (execute (objs k ! a) (PrintChar_text k)),
      k\<lparr>PrintChar_text := snd (snd (execute (objs k ! a) (PrintChar_text k))),
        objs := (objs k)[a := fst (snd (execute (objs k ! a) (PrintChar_text k)))],
        history := history k @ [(key, a)], undo_stack := butlast (undo_stack k)\<rparr>)"
  using assms by (simp add: redo_def redo_command_eq split: prod.splits)

lemma press_key_some:
  assumes "key \<noteq> ''undo''" and "key \<noteq> ''redo''" and "get_binding k key = Some a"
  shows "press_key k key =
     (fst (execute (objs k ! a) (PrintChar_text k)),
      k\<lparr>PrintChar_text := snd (snd (execute (objs k ! a) (PrintChar_text k))),
        objs := (objs k)[a := fst (snd (execute (objs k ! a) (PrintChar_text k)))],
        history := history k @ [(key, a)], undo_stack := []\<rparr>)"
  using assms by (simp add: press_key_bound split: prod.splits)

lemma get_binding_Some: "get_binding k key = Some a \<longleftrightarrow> map_of (key_bindings k) key = Some (Some a)"
  by (auto simp: get_binding_def split: option.splits)

lemma wf_undo:
  assumes "wf k"
  shows "wf (snd (undo k))"
proof (cases "history k = []")
  case True
  with assms show ?thesis by (simp add: undo_def)
next
  case False
  obtain key a where l: "last (history k) = (key, a)" by (cases "last (history k)")
  have m: "(key, a) \<in> set (history k)" using False l last_in_set by metis
  have b: "a < length (objs k)" using assms m wf_history wf_bound by blast
  have s: "single (objs k ! a)" using assms b wf_single by simp
  show ?thesis
    unfolding undo_some [OF False l] snd_conv
  proof (rule wfI, simp_all)
    show "distinct (map fst (key_bindings k))" using assms by (rule wf_distinct)
    show "\<And>key a. map_of (key_bindings k) key = Some (Some a) \<Longrightarrow> a < length (objs k)"
      using assms by (rule wf_bound)
    show "\<And>key a. (key, a) \<in> set (butlast (history k)) \<Longrightarrow> map_of (key_bindings k) key = Some (Some a)"
      using assms wf_history in_set_butlastD by metis
    show "\<And>key' a'. key' = key \<and> a' = a \<or> (key', a') \<in> set (undo_stack k) \<Longrightarrow>
             map_of (key_bindings k) key' = Some (Some a')"
      using assms wf_undo_stack wf_history m by blast
    show "\<And>c. c \<in> set ((objs k)[a := fst (snd (undo_command (objs k ! a) (PrintChar_text k)))]) \<Longrightarrow> single c"
      using assms s by (elim single_update [rotated 2]) (simp_all add: wf_single undo_command_single)
  qed
qed


lemma wf_redo:
  assumes "wf k"
  shows "wf (snd (redo k))"
proof (cases "undo_stack k = []")
  case True
  with assms show ?thesis by (simp add: redo_def)
next
  case False
  obtain key a where l: "last (undo_stack k) = (key, a)" by (cases "last (undo_stack k)")
  have m: "(key, a) \<in> set (undo_stack k)" using False l last_in_set by metis
  have b: "a < length (objs k)" using assms m wf_undo_stack wf_bound by blast
  have s: "single (objs k ! a)" using assms b wf_single by simp
  show ?thesis
    unfolding redo_some [OF False l] snd_conv
  proof (rule wfI, simp_all)
    show "distinct (map fst (key_bindings k))" using assms by (rule wf_distinct)
    show "\<And>key a. map_of (key_bindings k) key = Some (Some a) \<Longrightarrow> a < length (objs k)"
      using assms by (rule wf_bound)
    show "\<And>key a. (key, a) \<in> set (butlast (undo_stack k)) \<Longrightarrow> map_of (key_bindings k) key = Some (Some a)"
      using assms wf_undo_stack in_set_butlastD by metis
    show "\<And>key' a'. key' = key \<and> a' = a \<or> (key', a') \<in> set (history k) \<Longrightarrow>
             map_of (key_bindings k) key' = Some (Some a')"
      using assms wf_undo_stack wf_history m by blast
    show "\<And>c. c \<in> set ((objs k)[a := fst (snd (execute (objs k ! a) (PrintChar_text k)))]) \<Longrightarrow> single c"
      using assms s by (elim single_update [rotated 2]) (simp_all add: wf_single execute_single)
  qed
qed

lemma wf_press_bound:
  assumes "wf k" and "key \<noteq> ''undo''" and "key \<noteq> ''redo''" and g: "get_binding k key = Some a"
  shows "wf (snd (press_key k key))"
proof -
  have m: "map_of (key_bindings k) key = Some (Some a)" using g by (simp add: get_binding_Some)
  have b: "a < length (objs k)" using assms(1) m by (rule wf_bound)
  have s: "single (objs k ! a)" using assms(1) b wf_single by simp
  show ?thesis
    unfolding press_key_some [OF assms(2-4)] snd_conv
  proof (rule wfI, simp_all)
    show "distinct (map fst (key_bindings k))" using assms(1) by (rule wf_distinct)
    show "\<And>key a. map_of (key_bindings k) key = Some (Some a) \<Longrightarrow> a < length (objs k)"
      using assms(1) by (rule wf_bound)
    show "\<And>key' a'. key' = key \<and> a' = a \<or> (key', a') \<in> set (history k) \<Longrightarrow>
             map_of (key_bindings k) key' = Some (Some a')"
      using assms(1) wf_history m by blast
    show "\<And>c. c \<in> set ((objs k)[a := fst (snd (execute (objs k ! a) (PrintChar_text k)))]) \<Longrightarrow> single c"
      using assms(1) s by (elim single_update [rotated 2]) (simp_all add: wf_single execute_single)
  qed
qed

lemma wf_press_fresh:
  assumes w: "wf k" and l: "length x = 1" and g: "get_binding k x = None"
  shows "wf (snd (press_key k x))"
  unfolding press_key_fresh [OF l g] snd_conv
proof (rule wfI, goal_cases)
  case 1
  show ?case using w by (simp add: wf_distinct distinct_dict_set)
next
  case (2 key a)
  then show ?case
    using wf_bound [OF w, of key a] by (auto simp: map_of_dict_set split: if_splits)
next
  case (3 key a)
  then show ?case
    using wf_history [OF w, of key a] g
    by (auto simp: map_of_dict_set get_binding_def)
next
  case (4 key a)
  then show ?case by simp
next
  case (5 c)
  then show ?case using wf_single [OF w, of c] l by auto
qed

lemma wf_press_key:
  assumes "wf k"
  shows "wf (snd (press_key k key))"
proof -
  consider (u) "key = ''undo''" | (r) "key = ''redo''"
    | (b) a where "key \<noteq> ''undo''" "key \<noteq> ''redo''" "get_binding k key = Some a"
    | (f) "get_binding k key = None" "length key = 1"
    | (n) "key \<noteq> ''undo''" "key \<noteq> ''redo''" "get_binding k key = None" "length key \<noteq> 1"
    by (cases "get_binding k key") auto
  then show ?thesis
  proof cases
    case u
    with assms show ?thesis by (simp add: press_key_def wf_undo)
  next
    case r
    with assms show ?thesis by (simp add: press_key_def wf_redo)
  next
    case b
    with assms show ?thesis by (simp add: wf_press_bound)
  next
    case f
    with assms show ?thesis by (simp add: wf_press_fresh)
  next
    case n
    with assms show ?thesis by (simp add: press_key_unknown)
  qed
qed

lemma wf_press_keys: "wf k \<Longrightarrow> wf (press_keys k keys)"
  by (induction keys arbitrary: k) (simp_all add: wf_press_key)

lemma VirtualKeyboard_eq:
  "VirtualKeyboard t =
     \<lparr>PrintChar_text = t,
      objs = [PrintCharCommand ''a'', PrintCharCommand ''b'', PrintCharCommand ''c'',
              PrintCharCommand ''d'', VolumeUpCommand 20 50, VolumeDownCommand 20 50,
              MediaPlayerCommand False],
      key_bindings = [(''a'', Some 0), (''b'', Some 1), (''c'', Some 2), (''d'', Some 3),
                      (''ctrl++'', Some 4), (''ctrl+-'', Some 5), (''ctrl+p'', Some 6),
                      (''undo'', None), (''redo'', None)],
      history = [], undo_stack = []\<rparr>"
  by (simp add: VirtualKeyboard_def init_default_bindings_def bind_new_def new_command_def
      bind_key_def)

lemma wf_VirtualKeyboard: "wf (VirtualKeyboard t)"
  unfolding VirtualKeyboard_eq
  by (rule wfI) (auto split: if_splits)


lemma chars_of_update:
  "printed c' = printed (os ! a) \<Longrightarrow> chars_of (os[a := c']) entries = chars_of os entries"
  by (simp add: chars_of_def printed_update)

lemma chars_of_new:
  "\<forall>e \<in> set entries. snd e < length os \<Longrightarrow> chars_of (os @ os') entries = chars_of os entries"
  by (induction entries) (auto simp: chars_of_def nth_append)

lemma chars_of_snoc: "chars_of os (entries @ [(key, a)]) = chars_of os entries @ printed (os ! a)"
  by (simp add: chars_of_def)

lemma text_undo:
  assumes w: "wf k" and t: "PrintChar_text k = applied_chars k"
  shows "PrintChar_text (snd (undo k)) = applied_chars (snd (undo k))"
proof (cases "history k = []")
  case True
  with t show ?thesis by (simp add: undo_def)
next
  case False
  obtain key a where l: "last (history k) = (key, a)" by (cases "last (history k)")
  have h: "history k = butlast (history k) @ [(key, a)]"
    using False l append_butlast_last_id by metis
  have m: "(key, a) \<in> set (history k)" using False l last_in_set by metis
  have b: "a < length (objs k)" using w m wf_history wf_bound by blast
  have s: "single (objs k ! a)" using w b wf_single by simp
  have "PrintChar_text k = chars_of (objs k) (butlast (history k)) @ printed (objs k ! a)"
    using t h chars_of_snoc unfolding applied_chars_def by metis
  then show ?thesis
    unfolding undo_some [OF False l] snd_conv applied_chars_def
    using s by (simp add: undo_command_text chars_of_update undo_command_printed)
qed

lemma text_redo:
  assumes w: "wf k" and t: "PrintChar_text k = applied_chars k"
  shows "PrintChar_text (snd (redo k)) = applied_chars (snd (redo k))"
proof (cases "undo_stack k = []")
  case True
  with t show ?thesis by (simp add: redo_def)
next
  case False
  obtain key a where l: "last (undo_stack k) = (key, a)" by (cases "last (undo_stack k)")
  have m: "(key, a) \<in> set (undo_stack k)" using False l last_in_set by metis
  have b: "a < length (objs k)" using w m wf_undo_stack wf_bound by blast
  show ?thesis
    unfolding redo_some [OF False l] snd_conv applied_chars_def
    using t b
    by (simp add: execute_text chars_of_update execute_printed chars_of_snoc applied_chars_def)
qed

lemma text_press_bound:
  assumes w: "wf k" and t: "PrintChar_text k = applied_chars k"
    and "key \<noteq> ''undo''" and "key \<noteq> ''redo''" and g: "get_binding k key = Some a"
  shows "PrintChar_text (snd (press_key k key)) = applied_chars (snd (press_key k key))"
proof -
  have m: "map_of (key_bindings k) key = Some (Some a)" using g by (simp add: get_binding_Some)
  have b: "a < length (objs k)" using w m by (rule wf_bound)
  show ?thesis
    unfolding press_key_some [OF assms(3-5)] snd_conv applied_chars_def
    using t b
    by (simp add: execute_text chars_of_update execute_printed chars_of_snoc applied_chars_def)
qed

lemma text_press_fresh:
  assumes w: "wf k" and t: "PrintChar_text k = applied_chars k"
    and l: "length x = 1" and g: "get_binding k x = None"
  shows "PrintChar_text (snd (press_key k x)) = applied_chars (snd (press_key k x))"
proof -
  have v: "\<forall>e \<in> set (history k). snd e < length (objs k)"
    using w wf_history wf_bound by fastforce
  show ?thesis
    unfolding press_key_fresh [OF l g] snd_conv applied_chars_def
    using t by (simp add: chars_of_snoc chars_of_new [OF v] applied_chars_def)
qed

lemma text_press_key:
  assumes w: "wf k" and t: "PrintChar_text k = applied_chars k"
  shows "PrintChar_text (snd (press_key k key)) = applied_chars (snd (press_key k key))"
proof -
  consider (u) "key = ''undo''" | (r) "key = ''redo''"
    | (b) a where "key \<noteq> ''undo''" "key \<noteq> ''redo''" "get_binding k key = Some a"
    | (f) "get_binding k key = None" "length key = 1"
    | (n) "key \<noteq> ''undo''" "key \<noteq> ''redo''" "get_binding k key = None" "length key \<noteq> 1"
    by (cases "get_binding k key") auto
  then show ?thesis
  proof cases
    case u
    with w t show ?thesis by (simp add: press_key_def text_undo)
  next
    case r
    with w t show ?thesis by (simp add: press_key_def text_redo)
  next
    case b
    with w t show ?thesis by (simp add: text_press_bound)
  next
    case f
    with w t show ?thesis by (simp add: text_press_fresh)
  next
    case n
    with t show ?thesis by (simp add: press_key_unknown)
  qed
qed

lemma text_press_keys:
  "wf k \<Longrightarrow> PrintChar_text k = applied_chars k \<Longrightarrow>
     PrintChar_text (press_keys k keys) = applied_chars (press_keys k keys)"
  by (induction keys arbitrary: k) (simp_all add: wf_press_key text_press_key)

text \<open>
  Claim C2. After any sequence of key presses (\<^verbatim>\<open>undo\<close> and \<^verbatim>\<open>redo\<close> among them) on a
  new keyboard with an empty text, the text is the concatenation, in the order of
  \<^verbatim>\<open>history\<close>, of the characters of the \<^verbatim>\<open>PrintCharCommand\<close> entries that are on
  \<^verbatim>\<open>history\<close>.
\<close>

theorem text_is_applied_chars:
  "PrintChar_text (press_keys (VirtualKeyboard []) keys)
     = applied_chars (press_keys (VirtualKeyboard []) keys)"
proof (rule text_press_keys)
  show "wf (VirtualKeyboard [])" by (rule wf_VirtualKeyboard)
  show "PrintChar_text (VirtualKeyboard []) = applied_chars (VirtualKeyboard [])"
    by (simp add: VirtualKeyboard_eq applied_chars_def chars_of_def)
qed

subsection \<open>Loading what was saved\<close>

lemma map_of_rev_distinct: "distinct (map fst xs) \<Longrightarrow> map_of (rev xs) = map_of xs"
proof (induction xs)
  case Nil
  then show ?case by simp
next
  case (Cons p xs)
  obtain a b where p: "p = (a, b)" by (cases p)
  from Cons.prems p have n: "map_of xs a = None" and d: "distinct (map fst xs)"
    by (simp_all add: map_of_eq_None_iff)
  have ih: "map_of (rev xs) = map_of xs" using Cons.IH d by simp
  show ?case
  proof
    fix x
    show "map_of (rev (p # xs)) x = map_of (p # xs) x"
      using n by (cases "map_of xs x") (auto simp: p ih map_add_def)
  qed
qed

lemma valid_bind_key_None: "valid k \<Longrightarrow> valid (bind_key k key None)"
  by (auto simp: valid_def bind_key_def map_of_dict_set split: if_splits)

lemma valid_bind_new: "valid k \<Longrightarrow> valid (bind_new k key c)"
  by (auto simp: valid_def bind_new_def new_command_def bind_key_def map_of_dict_set
      less_Suc_eq split: if_splits)

lemma bound_cmd_bind_key_None:
  "bound_cmd (bind_key k key None) key' = (if key' = key then Some None else bound_cmd k key')"
  by (simp add: bound_cmd_def bind_key_def map_of_dict_set)

lemma bound_cmd_bind_new:
  assumes "valid k"
  shows "bound_cmd (bind_new k key c) key' = (if key' = key then Some (Some c) else bound_cmd k key')"
proof (cases "key' = key")
  case True
  then show ?thesis
    by (simp add: bound_cmd_def bind_new_def new_command_def bind_key_def map_of_dict_set)
next
  case False
  show ?thesis
  proof (cases "map_of (key_bindings k) key'")
    case None
    with False show ?thesis
      by (simp add: bound_cmd_def bind_new_def new_command_def bind_key_def map_of_dict_set)
  next
    case (Some b)
    show ?thesis
    proof (cases b)
      case None
      with Some False show ?thesis
        by (simp add: bound_cmd_def bind_new_def new_command_def bind_key_def map_of_dict_set)
    next
      case (Some a)
      with \<open>map_of (key_bindings k) key' = Some b\<close> assms have "a < length (objs k)"
        by (auto simp: valid_def)
      with Some \<open>map_of (key_bindings k) key' = Some b\<close> False show ?thesis
        by (simp add: bound_cmd_def bind_new_def new_command_def bind_key_def map_of_dict_set
            nth_append)
    qed
  qed
qed

lemma load_bindings_bound:
  "load_bindings es k = (None, k') \<Longrightarrow> valid k \<Longrightarrow>
     valid k' \<and> (\<forall>key. bound_cmd k' key =
        (case map_of (rev es) key of None \<Rightarrow> bound_cmd k key | Some e \<Rightarrow> Some (entry_cmd e)))"
proof (induction es k arbitrary: k' rule: load_bindings.induct)
  case (1 k)
  then show ?case by simp
next
  case (2 key es k)
  from 2 have "valid k' \<and> (\<forall>key'. bound_cmd k' key' =
        (case map_of (rev es) key' of None \<Rightarrow> bound_cmd (bind_key k key None) key'
         | Some e \<Rightarrow> Some (entry_cmd e)))"
    by (simp add: valid_bind_key_None)
  then show ?case
    by (auto simp: bound_cmd_bind_key_None map_add_def split: option.splits)
next
  case (3 key cd es k)
  from "3.prems"(1) obtain c where c: "make_command cd = Inr c"
    by (cases "make_command cd") auto
  with 3 have "valid k' \<and> (\<forall>key'. bound_cmd k' key' =
        (case map_of (rev es) key' of None \<Rightarrow> bound_cmd (bind_new k key c) key'
         | Some e \<Rightarrow> Some (entry_cmd e)))"
    by (simp add: valid_bind_new)
  then show ?case
    using c "3.prems"(2)
    by (auto simp: bound_cmd_bind_new map_add_def split: option.splits)
qed

lemma load_bindings_loadable:
  "\<forall>e \<in> set es. loadable (snd e) \<Longrightarrow> fst (load_bindings es k) = None"
  by (induction es k rule: load_bindings.induct) (auto simp: loadable_def split: sum.splits)

lemma rebuild_keys: "map fst (rebuild k keys) = filter (\<lambda>key. get_binding k key \<noteq> None) keys"
  by (induction keys) (auto simp: rebuild_def split: option.splits)

lemma get_binding_bound_cmd:
  "get_binding k key \<noteq> None \<longleftrightarrow> (\<exists>c. bound_cmd k key = Some (Some c))"
  by (auto simp: get_binding_def bound_cmd_def split: option.splits)

lemma valid_no_bindings: "valid (k\<lparr>PrintChar_text := t, key_bindings := []\<rparr>)"
  by (simp add: valid_def)

lemma bound_cmd_no_bindings: "bound_cmd (k\<lparr>PrintChar_text := t, key_bindings := []\<rparr>) = (\<lambda>key. None)"
  by (simp add: bound_cmd_def fun_eq_iff)

lemma load_state_loaded:
  assumes "sn_text state = Some t" and "sn_key_bindings state = Some es"
    and "sn_history state = Some h" and "sn_undo_stack state = Some u"
    and "load_bindings es (k\<lparr>PrintChar_text := t, key_bindings := []\<rparr>) = (None, k1)"
  shows "load_state (Parsed state) k =
           (Inr True, k1\<lparr>history := rebuild k1 h, undo_stack := rebuild k1 u\<rparr>)"
proof -
  have "rebuild (k1\<lparr>history := rebuild k1 h\<rparr>) u = rebuild k1 u"
    by (simp add: rebuild_def get_binding_def)
  then show ?thesis using assms by (simp add: load_state_def Let_def)
qed

text \<open>
  Claim C5. When the text is present and every entry of \<^verbatim>\<open>key_bindings\<close> is
  loadable, a snapshot loads (\<^verbatim>\<open>load_state\<close> returns \<^verbatim>\<open>True\<close>) whatever keys its
  \<^verbatim>\<open>history\<close> and \<^verbatim>\<open>undo_stack\<close> list: the keys that are not in \<^verbatim>\<open>key_bindings\<close>
  or are bound to \<^verbatim>\<open>null\<close> there are dropped, and the others stay in their order.
\<close>

theorem orphan_tokens_dropped:
  assumes "sn_text state = Some t" and "sn_key_bindings state = Some es"
    and "sn_history state = Some h" and "sn_undo_stack state = Some u"
    and "distinct (map fst es)" and "\<forall>e \<in> set es. loadable (snd e)"
  shows "fst (load_state (Parsed state) k) = Inr True
       \<and> map fst (history (snd (load_state (Parsed state) k))) = filter (names_command es) h
       \<and> map fst (undo_stack (snd (load_state (Parsed state) k))) = filter (names_command es) u"
proof -
  let ?k0 = "k\<lparr>PrintChar_text := t, key_bindings := []\<rparr>"
  obtain k1 where l: "load_bindings es ?k0 = (None, k1)"
    using load_bindings_loadable [OF assms(6), of ?k0] by (cases "load_bindings es ?k0") auto
  have b: "\<And>key. bound_cmd k1 key =
        (case map_of es key of None \<Rightarrow> None | Some e \<Rightarrow> Some (entry_cmd e))"
    using load_bindings_bound [OF l valid_no_bindings] map_of_rev_distinct [OF assms(5)]
      bound_cmd_no_bindings [where k = k and t = t]
    by (simp split: option.splits)
  have g: "\<And>key. (get_binding k1 key \<noteq> None) = names_command es key"
  proof -
    fix key
    show "(get_binding k1 key \<noteq> None) = names_command es key"
      unfolding get_binding_bound_cmd b names_command_def
      by (cases "map_of es key"; cases "the (map_of es key)") auto
  qed
  have r: "\<And>keys. map fst (rebuild k1 keys) = filter (names_command es) keys"
    unfolding rebuild_keys g ..
  show ?thesis
    unfolding load_state_loaded [OF assms(1-4) l]
    by (simp add: r)
qed

lemma loadable_print_data: "loadable (Some (print_data c))"
  by (simp add: loadable_def print_data_def make_command_def known_class_def construct_def no_state_def)

theorem orphan_tokens_dropped_witness:
  "sn_history orphan_snapshot = Some [''a'', ''ghost'', ''undo'', ''a'']
   \<and> sn_undo_stack orphan_snapshot = Some [''ghost'']
   \<and> fst (load_state (Parsed orphan_snapshot) (VirtualKeyboard [])) = Inr True
   \<and> map fst (history (snd (load_state (Parsed orphan_snapshot) (VirtualKeyboard [])))) = [''a'', ''a'']
   \<and> map fst (undo_stack (snd (load_state (Parsed orphan_snapshot) (VirtualKeyboard [])))) = []"
proof -
  let ?es = "[(''a'', Some (print_data ''a'')), (''undo'', None)]"
  have 1: "sn_text orphan_snapshot = Some ''aa''"
    and 2: "sn_key_bindings orphan_snapshot = Some ?es"
    and 3: "sn_history orphan_snapshot = Some [''a'', ''ghost'', ''undo'', ''a'']"
    and 4: "sn_undo_stack orphan_snapshot = Some [''ghost'']"
    by (simp_all add: orphan_snapshot_def)
  have 5: "distinct (map fst ?es)" by simp
  have 6: "\<forall>e \<in> set ?es. loadable (snd e)"
    by (simp add: loadable_print_data) (simp add: loadable_def)
  have f: "filter (names_command ?es) [''a'', ''ghost'', ''undo'', ''a''] = [''a'', ''a'']"
    "filter (names_command ?es) [''ghost''] = []"
    by (simp_all add: names_command_def)
  show ?thesis
    using orphan_tokens_dropped [OF 1 2 3 4 5 6, of "VirtualKeyboard []"] 3 4
    unfolding f by blast
qed

lemma make_command_dict_of:
  "make_command \<lparr>cd_class = Some (class_name c), cd_state = Some (dict_of c)\<rparr> = Inr c"
  by (cases c) (simp_all add: make_command_def known_class_def construct_def no_state_def)

lemma undo_outcome:
  "fst (undo k) =
     (if history k = [] then ''Nothing to undo''
      else ''undo: '' @ fst (undo_command (snd (last (stack_cmds k (history k)))) (PrintChar_text k)))"
  by (simp add: undo_def stack_cmds_def last_map split: prod.splits)

lemma undo_text:
  "PrintChar_text (snd (undo k)) =
     (if history k = [] then PrintChar_text k
      else snd (snd (undo_command (snd (last (stack_cmds k (history k)))) (PrintChar_text k))))"
  by (simp add: undo_def stack_cmds_def last_map split: prod.splits)

lemma rebuild_Cons:
  "rebuild k (key # keys) =
     (case get_binding k key of Some a \<Rightarrow> (key, a) # rebuild k keys | None \<Rightarrow> rebuild k keys)"
  by (simp add: rebuild_def split: option.splits)

lemma rebuild_stack_cmds:
  assumes b: "\<And>key. bound_cmd k1 key = bound_cmd k key"
  shows "\<forall>e \<in> set entries. map_of (key_bindings k) (fst e) = Some (Some (snd e)) \<Longrightarrow>
           stack_cmds k1 (rebuild k1 (map fst entries)) = stack_cmds k entries"
proof (induction entries)
  case Nil
  then show ?case by (simp add: rebuild_def stack_cmds_def)
next
  case (Cons e entries)
  obtain key a where e: "e = (key, a)" by (cases e)
  from Cons.prems e have m: "map_of (key_bindings k) key = Some (Some a)" by simp
  then have "bound_cmd k key = Some (Some (objs k ! a))"
    by (simp add: bound_cmd_def)
  then have "bound_cmd k1 key = Some (Some (objs k ! a))"
    by (simp only: b)
  then obtain a' where a': "map_of (key_bindings k1) key = Some (Some a')"
    and o: "objs k1 ! a' = objs k ! a"
    by (auto simp: bound_cmd_def)
  have g: "get_binding k1 key = Some a'" using a' by (simp add: get_binding_def)
  have "stack_cmds k1 (rebuild k1 (map fst entries)) = stack_cmds k entries"
    using Cons by simp
  then show ?case
    using g o by (simp add: e rebuild_Cons stack_cmds_def)
qed

lemma from_keyboard_entries:
  "sn_key_bindings (from_keyboard k) = Some es \<Longrightarrow>
     map fst es = map fst (key_bindings k)
   \<and> (\<forall>e \<in> set es. loadable (snd e))
   \<and> (\<forall>key. (case map_of es key of None \<Rightarrow> None | Some e \<Rightarrow> Some (entry_cmd e)) = bound_cmd k key)"
proof -
  let ?f = "\<lambda>command. case command of None \<Rightarrow> None
              | Some a \<Rightarrow> Some \<lparr>cd_class = Some (class_name (objs k ! a)),
                                 cd_state = Some (dict_of (objs k ! a))\<rparr>"
  assume "sn_key_bindings (from_keyboard k) = Some es"
  then have es: "es = map (\<lambda>(key, command). (key, ?f command)) (key_bindings k)"
    by (simp add: from_keyboard_def)
  have 1: "map fst es = map fst (key_bindings k)"
    by (simp add: es case_prod_beta comp_def)
  have l: "\<And>b. loadable (?f b)"
    by (simp add: loadable_def make_command_dict_of split: option.splits)
  have 2: "\<forall>e \<in> set es. loadable (snd e)"
    unfolding es using l by (auto simp del: split_paired_All)
  have m: "map_of es = map_option ?f \<circ> map_of (key_bindings k)"
    unfolding es by (rule map_of_map)
  have c: "\<And>b. entry_cmd (?f b) = map_option (\<lambda>a. objs k ! a) b"
    by (simp add: make_command_dict_of split: option.splits)
  have 3: "\<forall>key. (case map_of es key of None \<Rightarrow> None | Some e \<Rightarrow> Some (entry_cmd e)) = bound_cmd k key"
  proof
    fix key
    show "(case map_of es key of None \<Rightarrow> None | Some e \<Rightarrow> Some (entry_cmd e)) = bound_cmd k key"
      unfolding m bound_cmd_def comp_def
      by (cases "map_of (key_bindings k) key") (simp_all only: option.map option.case c)
  qed
  from 1 2 3 show ?thesis by blast
qed

lemma stack_cmds_objs: "objs k' = objs k \<Longrightarrow> stack_cmds k' entries = stack_cmds k entries"
  by (simp add: stack_cmds_def)

lemma load_from_keyboard:
  assumes w: "wf k"
  shows "\<exists>k1. load_state (Parsed (from_keyboard k)) k0 =
              (Inr True, k1\<lparr>history := rebuild k1 (map fst (history k)),
                             undo_stack := rebuild k1 (map fst (undo_stack k))\<rparr>)
            \<and> PrintChar_text k1 = PrintChar_text k
            \<and> (\<forall>key. bound_cmd k1 key = bound_cmd k key)"
proof -
  let ?s = "from_keyboard k" and ?k0 = "k0\<lparr>PrintChar_text := PrintChar_text k, key_bindings := []\<rparr>"
  obtain es where es: "sn_key_bindings ?s = Some es" by (simp add: from_keyboard_def)
  have t: "sn_text ?s = Some (PrintChar_text k)"
    and h: "sn_history ?s = Some (map fst (history k))"
    and u: "sn_undo_stack ?s = Some (map fst (undo_stack k))"
    by (simp_all add: from_keyboard_def)
  note e = from_keyboard_entries [OF es]
  have d: "distinct (map fst es)" using e w by (simp add: wf_distinct)
  have lo: "\<forall>e \<in> set es. loadable (snd e)" using e by blast
  have v: "\<And>key. (case map_of es key of None \<Rightarrow> None | Some e \<Rightarrow> Some (entry_cmd e)) = bound_cmd k key"
    using e by blast
  obtain k1 where l: "load_bindings es ?k0 = (None, k1)"
    using load_bindings_loadable [OF lo, of ?k0] by (cases "load_bindings es ?k0") auto
  have b: "\<And>key. bound_cmd k1 key = bound_cmd k key"
  proof -
    fix key
    have "bound_cmd k1 key = (case map_of es key of None \<Rightarrow> None | Some e \<Rightarrow> Some (entry_cmd e))"
      using load_bindings_bound [OF l valid_no_bindings] map_of_rev_distinct [OF d]
        bound_cmd_no_bindings [where k = k0 and t = "PrintChar_text k"]
      by (simp split: option.splits)
    then show "bound_cmd k1 key = bound_cmd k key" by (simp only: v)
  qed
  have x: "PrintChar_text k1 = PrintChar_text k"
    using load_bindings_keeps [of es ?k0] l by simp
  show ?thesis
    using load_state_loaded [OF t es h u l] x b by blast
qed

lemma roundtrip_wf:
  assumes w: "wf k"
  shows "fst (load_state (Parsed (from_keyboard k)) k0) = Inr True
       \<and> PrintChar_text (snd (load_state (Parsed (from_keyboard k)) k0)) = PrintChar_text k
       \<and> fst (undo (snd (load_state (Parsed (from_keyboard k)) k0))) = fst (undo k)
       \<and> PrintChar_text (snd (undo (snd (load_state (Parsed (from_keyboard k)) k0))))
           = PrintChar_text (snd (undo k))"
proof -
  obtain k1 where r: "load_state (Parsed (from_keyboard k)) k0 =
              (Inr True, k1\<lparr>history := rebuild k1 (map fst (history k)),
                             undo_stack := rebuild k1 (map fst (undo_stack k))\<rparr>)"
    and x: "PrintChar_text k1 = PrintChar_text k"
    and b: "\<And>key. bound_cmd k1 key = bound_cmd k key"
    using load_from_keyboard [OF w, of k0] by blast
  let ?k' = "k1\<lparr>history := rebuild k1 (map fst (history k)),
                 undo_stack := rebuild k1 (map fst (undo_stack k))\<rparr>"
  have hk: "\<forall>e \<in> set (history k). map_of (key_bindings k) (fst e) = Some (Some (snd e))"
    using wf_history [OF w] by auto
  have s: "stack_cmds ?k' (history ?k') = stack_cmds k (history k)"
    using rebuild_stack_cmds [OF b hk] stack_cmds_objs [of ?k' k1] by simp
  have n: "(history ?k' = []) = (history k = [])"
    using arg_cong [OF s, of length] by (simp add: stack_cmds_def) (metis length_0_conv)
  have t: "PrintChar_text ?k' = PrintChar_text k" using x by simp
  have o: "fst (undo ?k') = fst (undo k)"
    unfolding undo_outcome s n t ..
  have p: "PrintChar_text (snd (undo ?k')) = PrintChar_text (snd (undo k))"
    unfolding undo_text s n t ..
  show ?thesis unfolding r fst_conv snd_conv using t o p by blast
qed

text \<open>
  Claim C1. For every sequence of key presses on a new keyboard, loading the snapshot
  that \<^verbatim>\<open>from_keyboard\<close> takes (into any keyboard \<open>k0\<close>) succeeds and gives a keyboard
  with the same text, whose next \<^verbatim>\<open>undo\<close> returns the string the original's next
  \<^verbatim>\<open>undo\<close> returns and leaves the same text.
\<close>

theorem snapshot_roundtrip:
  "fst (load_state (Parsed (from_keyboard (press_keys (VirtualKeyboard t) keys))) k0) = Inr True
   \<and> PrintChar_text (snd (load_state (Parsed (from_keyboard (press_keys (VirtualKeyboard t) keys))) k0))
       = PrintChar_text (press_keys (VirtualKeyboard t) keys)
   \<and> fst (undo (snd (load_state (Parsed (from_keyboard (press_keys (VirtualKeyboard t) keys))) k0)))
       = fst (undo (press_keys (VirtualKeyboard t) keys))
   \<and> PrintChar_text (snd (undo (snd (load_state (Parsed (from_keyboard (press_keys (VirtualKeyboard t) keys))) k0))))
       = PrintChar_text (snd (undo (press_keys (VirtualKeyboard t) keys)))"
proof -
  have "wf (VirtualKeyboard t)" by (rule wf_VirtualKeyboard)
  then have "wf (press_keys (VirtualKeyboard t) keys)" by (rule wf_press_keys)
  then show ?thesis by (rule roundtrip_wf)
qed

subsection \<open>A bad entry of \<^verbatim>\<open>key_bindings\<close>\<close>

lemma load_bindings_keys:
  "fst ` set (key_bindings (snd (load_bindings es k))) \<subseteq> fst ` set (key_bindings k) \<union> fst ` set es"
proof (induction es k rule: load_bindings.induct)
  case (1 k)
  then show ?case by simp
next
  case (2 key es k)
  then show ?case by (auto simp: bind_key_def fst_set_dict_set)
next
  case (3 key cd es k)
  show ?case
  proof (cases "make_command cd")
    case (Inl e)
    then show ?thesis by auto
  next
    case (Inr c)
    with 3 show ?thesis
      by (auto simp: bind_new_def new_command_def bind_key_def fst_set_dict_set)
  qed
qed

lemma load_state_no_text:
  "sn_text state = None \<Longrightarrow> load_state (Parsed state) k = (Inr False, k)"
  by (simp add: load_state_def except_def)

lemma unknown_class_load:
  assumes "sn_text state = Some t"
    and "sn_key_bindings state = Some (pre @ (key, Some cd) # post)"
    and "\<forall>e \<in> set pre. loadable (snd e)"
    and "cd_class cd = Some cls" and "\<not> known_class cls"
  shows "load_state (Parsed state) k =
           (Inr False, snd (load_bindings pre (k\<lparr>PrintChar_text := t, key_bindings := []\<rparr>)))
       \<and> PrintChar_text (snd (load_state (Parsed state) k)) = t
       \<and> history (snd (load_state (Parsed state) k)) = history k
       \<and> undo_stack (snd (load_state (Parsed state) k)) = undo_stack k
       \<and> fst ` set (key_bindings (snd (load_state (Parsed state) k))) \<subseteq> fst ` set pre"
proof -
  let ?k0 = "k\<lparr>PrintChar_text := t, key_bindings := []\<rparr>"
  obtain k1 where l: "load_bindings pre ?k0 = (None, k1)"
    using load_bindings_loadable [OF assms(3), of ?k0] by (cases "load_bindings pre ?k0") auto
  have m: "make_command cd = Inl KeyError" using assms(4,5) by (rule make_command_unknown)
  have a: "load_bindings (pre @ (key, Some cd) # post) ?k0 = (Some KeyError, k1)"
    by (simp add: load_bindings_append l m)
  have r: "load_state (Parsed state) k = (Inr False, k1)"
    using assms(1,2) a by (simp add: load_state_def except_def)
  have p: "PrintChar_text k1 = t \<and> history k1 = history k \<and> undo_stack k1 = undo_stack k"
    using load_bindings_keeps [of pre ?k0] l by simp
  have q: "fst ` set (key_bindings k1) \<subseteq> fst ` set pre"
    using load_bindings_keys [of pre ?k0] l by simp
  show ?thesis unfolding r using l p q by simp
qed

text \<open>
  Claim C4, as the code has it. An entry of \<^verbatim>\<open>key_bindings\<close> whose class name is not
  one of the four command classes fails the whole load, not only its own binding: when
  the text is present and the entries before it are loadable, \<^verbatim>\<open>load_state\<close> returns
  \<^verbatim>\<open>False\<close>; the text is the snapshot's, the table holds only keys of the entries
  before the bad one, and both stacks are what they were before the load. A snapshot
  without the text fails the load too: \<^verbatim>\<open>load_state\<close> returns \<^verbatim>\<open>False\<close> and the
  keyboard is what it was.
\<close>

theorem bad_class_aborts_load:
  "(sn_text state = None \<longrightarrow> load_state (Parsed state) k = (Inr False, k))
   \<and> (sn_text state = Some t
        \<and> sn_key_bindings state = Some (pre @ (key, Some cd) # post)
        \<and> (\<forall>e \<in> set pre. loadable (snd e))
        \<and> cd_class cd = Some cls \<and> \<not> known_class cls
      \<longrightarrow> load_state (Parsed state) k =
             (Inr False, snd (load_bindings pre (k\<lparr>PrintChar_text := t, key_bindings := []\<rparr>)))
          \<and> PrintChar_text (snd (load_state (Parsed state) k)) = t
          \<and> history (snd (load_state (Parsed state) k)) = history k
          \<and> undo_stack (snd (load_state (Parsed state) k)) = undo_stack k
          \<and> fst ` set (key_bindings (snd (load_state (Parsed state) k))) \<subseteq> fst ` set pre)"
proof (rule conjI)
  show "sn_text state = None \<longrightarrow> load_state (Parsed state) k = (Inr False, k)"
    by (simp add: load_state_no_text)
next
  show "sn_text state = Some t
        \<and> sn_key_bindings state = Some (pre @ (key, Some cd) # post)
        \<and> (\<forall>e \<in> set pre. loadable (snd e))
        \<and> cd_class cd = Some cls \<and> \<not> known_class cls
      \<longrightarrow> load_state (Parsed state) k =
             (Inr False, snd (load_bindings pre (k\<lparr>PrintChar_text := t, key_bindings := []\<rparr>)))
          \<and> PrintChar_text (snd (load_state (Parsed state) k)) = t
          \<and> history (snd (load_state (Parsed state) k)) = history k
          \<and> undo_stack (snd (load_state (Parsed state) k)) = undo_stack k
          \<and> fst ` set (key_bindings (snd (load_state (Parsed state) k))) \<subseteq> fst ` set pre"
  proof (rule impI)
    assume a: "sn_text state = Some t
        \<and> sn_key_bindings state = Some (pre @ (key, Some cd) # post)
        \<and> (\<forall>e \<in> set pre. loadable (snd e))
        \<and> cd_class cd = Some cls \<and> \<not> known_class cls"
    then have 1: "sn_text state = Some t"
      and 2: "sn_key_bindings state = Some (pre @ (key, Some cd) # post)"
      and 3: "\<forall>e \<in> set pre. loadable (snd e)"
      and 4: "cd_class cd = Some cls" and 5: "\<not> known_class cls"
      by blast+
    show "load_state (Parsed state) k =
             (Inr False, snd (load_bindings pre (k\<lparr>PrintChar_text := t, key_bindings := []\<rparr>)))
          \<and> PrintChar_text (snd (load_state (Parsed state) k)) = t
          \<and> history (snd (load_state (Parsed state) k)) = history k
          \<and> undo_stack (snd (load_state (Parsed state) k)) = undo_stack k
          \<and> fst ` set (key_bindings (snd (load_state (Parsed state) k))) \<subseteq> fst ` set pre"
      by (rule unknown_class_load [OF 1 2 3 4 5])
  qed
qed

theorem bad_class_aborts_load_witness:
  "sn_text (bad_class_snapshot\<lparr>sn_text := None\<rparr>) = None
   \<and> load_state (Parsed (bad_class_snapshot\<lparr>sn_text := None\<rparr>)) (VirtualKeyboard [])
       = (Inr False, VirtualKeyboard [])
   \<and> \<not> known_class ''LaunchRocket''
   \<and> fst (load_state (Parsed bad_class_snapshot) (VirtualKeyboard [])) = Inr False
   \<and> PrintChar_text (snd (load_state (Parsed bad_class_snapshot) (VirtualKeyboard []))) = ''a''
   \<and> history (snd (load_state (Parsed bad_class_snapshot) (VirtualKeyboard [])))
       = history (VirtualKeyboard [])
   \<and> fst ` set (key_bindings (snd (load_state (Parsed bad_class_snapshot) (VirtualKeyboard []))))
       \<subseteq> {''a''}"
proof -
  let ?cd = "\<lparr>cd_class = Some ''LaunchRocket'', cd_state = Some no_state\<rparr>"
  have 0: "sn_text (bad_class_snapshot\<lparr>sn_text := None\<rparr>) = None" by simp
  have n: "load_state (Parsed (bad_class_snapshot\<lparr>sn_text := None\<rparr>)) (VirtualKeyboard [])
             = (Inr False, VirtualKeyboard [])"
    using bad_class_aborts_load
      [of "bad_class_snapshot\<lparr>sn_text := None\<rparr>" "VirtualKeyboard []"] 0
    by blast
  have 1: "sn_text bad_class_snapshot = Some ''a''"
    and 2: "sn_key_bindings bad_class_snapshot =
              Some ([(''a'', Some (print_data ''a''))] @ (''z'', Some ?cd) # [(''b'', Some (print_data ''b''))])"
    by (simp_all add: bad_class_snapshot_def)
  have 3: "\<forall>e \<in> set [(''a'', Some (print_data ''a''))]. loadable (snd e)"
    by (simp add: loadable_print_data)
  have 4: "cd_class ?cd = Some ''LaunchRocket''" by simp
  have 5: "\<not> known_class ''LaunchRocket''" by (simp add: known_class_def)
  have w: "load_state (Parsed bad_class_snapshot) (VirtualKeyboard []) =
             (Inr False, snd (load_bindings [(''a'', Some (print_data ''a''))]
                ((VirtualKeyboard [])\<lparr>PrintChar_text := ''a'', key_bindings := []\<rparr>)))
          \<and> PrintChar_text (snd (load_state (Parsed bad_class_snapshot) (VirtualKeyboard []))) = ''a''
          \<and> history (snd (load_state (Parsed bad_class_snapshot) (VirtualKeyboard [])))
              = history (VirtualKeyboard [])
          \<and> undo_stack (snd (load_state (Parsed bad_class_snapshot) (VirtualKeyboard [])))
              = undo_stack (VirtualKeyboard [])
          \<and> fst ` set (key_bindings (snd (load_state (Parsed bad_class_snapshot) (VirtualKeyboard []))))
              \<subseteq> fst ` set [(''a'', Some (print_data ''a''))]"
    using bad_class_aborts_load
      [of bad_class_snapshot "VirtualKeyboard []" "''a''" "[(''a'', Some (print_data ''a''))]"
          "''z''" ?cd "[(''b'', Some (print_data ''b''))]" "''LaunchRocket''"]
      1 2 3 4 5
    by blast
  have a: "fst (load_state (Parsed bad_class_snapshot) (VirtualKeyboard [])) = Inr False"
    using w by (metis fst_conv)
  have b: "PrintChar_text (snd (load_state (Parsed bad_class_snapshot) (VirtualKeyboard []))) = ''a''"
    using w by blast
  have c: "history (snd (load_state (Parsed bad_class_snapshot) (VirtualKeyboard [])))
             = history (VirtualKeyboard [])"
    using w by blast
  have e: "fst ` set [(''a'', Some (print_data ''a''))] = {''a''}" by simp
  have "fst ` set (key_bindings (snd (load_state (Parsed bad_class_snapshot) (VirtualKeyboard []))))
          \<subseteq> fst ` set [(''a'', Some (print_data ''a''))]"
    using w by blast
  then have d: "fst ` set (key_bindings (snd (load_state (Parsed bad_class_snapshot) (VirtualKeyboard []))))
          \<subseteq> {''a''}"
    by (simp only: e)
  show ?thesis using 0 n 5 a b c d by blast
qed

text \<open>
  Claim C4 as the specification words it fails. With an unknown class name for \<^verbatim>\<open>z\<close>
  the load returns \<^verbatim>\<open>False\<close>, the later entry \<^verbatim>\<open>b\<close> is not bound and the listed
  history is not rebuilt; with a \<^verbatim>\<open>"state"\<close> that does not fit the constructor the
  load leaves \<^verbatim>\<open>load_state\<close> with a \<^verbatim>\<open>TypeError\<close>.
\<close>

theorem bad_entry_fails_whole_load:
  "fst (load_state (Parsed bad_class_snapshot) (VirtualKeyboard [])) = Inr False
   \<and> get_binding (snd (load_state (Parsed bad_class_snapshot) (VirtualKeyboard []))) ''b'' = None
   \<and> history (snd (load_state (Parsed bad_class_snapshot) (VirtualKeyboard []))) = []
   \<and> fst (load_state (Parsed bad_fields_snapshot) (VirtualKeyboard [])) = Inl TypeError
   \<and> get_binding (snd (load_state (Parsed bad_fields_snapshot) (VirtualKeyboard []))) ''b'' = None"
  by code_simp

end
